theory Spec2Isabelle
  imports Complex_Main "HOL-Library.Word"
begin

section \<open>Messages\<close>

text \<open>
  The message types the two action servers build and publish. A C++ \<^verbatim>\<open>double\<close> is
  modelled as a \<^typ>\<open>real\<close>: the servers only copy such values, negate them or
  multiply them by \<^verbatim>\<open>-1\<close>. Field names carry a prefix, since \<^verbatim>\<open>x\<close>,
  \<^verbatim>\<open>linear\<close> or \<^verbatim>\<open>image\<close> would hide variables and library constants.
\<close>

record Vector3 =
  v3_x :: real
  v3_y :: real
  v3_z :: real

record Twist =
  twist_linear :: Vector3
  twist_angular :: Vector3

record Point =
  pt_x :: real
  pt_y :: real
  pt_z :: real

record Quaternion =
  q_x :: real
  q_y :: real
  q_z :: real
  q_w :: real

record Pose =
  position :: Point
  orientation :: Quaternion

record Time =
  sec :: "32 word"
  nsec :: "32 word"

record Header =
  header_seq :: "32 word"
  stamp :: Time
  frame_id :: string

record PoseStamped =
  header :: Header
  pose :: Pose

text \<open>\<^verbatim>\<open>geometry_msgs::Twist move_cmd{}\<close>: every field is zero.\<close>

definition Vector3_zero :: Vector3 where
  "Vector3_zero = \<lparr>v3_x = 0, v3_y = 0, v3_z = 0\<rparr>"

definition Twist_zero :: Twist where
  "Twist_zero = \<lparr>twist_linear = Vector3_zero, twist_angular = Vector3_zero\<rparr>"

text \<open>A default constructed \<^verbatim>\<open>ros::Duration\<close> (also a pair of 32 bit fields).\<close>

definition Duration_zero :: Time where
  "Duration_zero = \<lparr>sec = 0, nsec = 0\<rparr>"

text \<open>How an action server ends the goal it is executing.\<close>

datatype status = Succeeded | Preempted | Aborted

section \<open>The teleop action server\<close>

text \<open>
  \<^verbatim>\<open>tfr_utilities::TeleopCode\<close> comes from \<^verbatim>\<open>tfr_utilities/teleop_code.h\<close>.
  The constructors are the case labels of \<^verbatim>\<open>processCommand\<close>; \<open>UNRECOGNIZED\<close>
  stands for every value of the goal's code that no label matches.
\<close>

datatype TeleopCode =
    STOP_DRIVEBASE | STOP_TURNTABLE | FORWARD | BACKWARD | LEFT | RIGHT
  | CLOCKWISE | COUNTERCLOCKWISE | DIG | DUMP | RESET_DUMPING | RESET_STARTING
  | UNRECOGNIZED

record DriveVelocity =
  getLinear :: real
  getAngular :: real

text \<open>
  The constants of \<^verbatim>\<open>tfr_utilities/control_code.h\<close> that the server reads:
  the two bin angles of \<^verbatim>\<open>JointAngles\<close> and the two values of \<^verbatim>\<open>BinCode\<close>
  the response code is compared with. Their values are parameters of the model.
\<close>

record control_code =
  BIN_MAX :: real
  BIN_MIN :: real
  RAISED :: "8 word"
  LOWERED :: "8 word"

text \<open>What the server does to the outside, in program order.\<close>

datatype teleop_event =
    Cmd_vel Twist
  | Bin_command real
  | Dig_sendGoal Time
  | Dig_cancelAllGoals

text \<open>
  The outside world during one call of \<^verbatim>\<open>processCommand\<close>: the answer of the
  \<^verbatim>\<open>digging_time\<close> service (\<open>None\<close> when the call fails and the response is left
  as it was), and, numbered from 0, the answer to each successive call of
  \<^verbatim>\<open>digging_client.getState().isDone()\<close>, \<^verbatim>\<open>server.isPreemptRequested()\<close>,
  \<^verbatim>\<open>ros::ok()\<close> and the \<^verbatim>\<open>bin_state\<close> service.
\<close>

record teleop_env =
  digging_time_call :: "Time option"
  dig_isDone :: "nat \<Rightarrow> bool"
  isPreemptRequested :: "nat \<Rightarrow> bool"
  ros_ok :: "nat \<Rightarrow> bool"
  bin_state_call :: "nat \<Rightarrow> 8 word option"

text \<open>
  The loop of the \<^verbatim>\<open>DIG\<close> case. In round \<open>i\<close> the digging client is asked whether
  it is done; if not, preemption and \<^verbatim>\<open>ros::ok()\<close> are looked at, and either the
  goals are cancelled and the callback returns, or the loop sleeps and goes round again.
  A loop that never leaves is \<open>None\<close>.
\<close>

partial_function (option) dig_loop ::
  "teleop_env \<Rightarrow> nat \<Rightarrow> teleop_event list \<Rightarrow> (status \<times> teleop_event list) option" where
  "dig_loop env i tr =
     (if \<not> dig_isDone env i then
        (if isPreemptRequested env i \<or> \<not> ros_ok env i
         then Some (Preempted, tr @ [Dig_cancelAllGoals])
         else dig_loop env (Suc i) tr)
      else Some (Succeeded, tr))"

text \<open>
  The loop shared (as two textual copies) by the \<^verbatim>\<open>DUMP\<close> and
  \<^verbatim>\<open>RESET_DUMPING\<close> cases. \<open>code\<close> is \<^verbatim>\<open>query.response.code\<close>, which lives
  outside the loop and is only overwritten by a call that succeeds; the result of the call
  itself is not looked at. The loop returns the number of the round in which it was left.
\<close>

partial_function (option) bin_loop ::
  "teleop_env \<Rightarrow> 8 word \<Rightarrow> real \<Rightarrow> nat \<Rightarrow> 8 word \<Rightarrow> teleop_event list
     \<Rightarrow> (nat \<times> teleop_event list) option" where
  "bin_loop env target bin_cmd i code tr =
     (if \<not> isPreemptRequested env i \<and> ros_ok env i then
        (let code' = (case bin_state_call env i of None \<Rightarrow> code | Some c \<Rightarrow> c) in
         if code' = target then Some (i, tr)
         else bin_loop env target bin_cmd (Suc i) code' (tr @ [Bin_command bin_cmd]))
      else Some (i, tr))"

text \<open>
  After the loop \<^verbatim>\<open>server.isPreemptRequested()\<close> is asked once more: that is call
  number \<open>i + 1\<close> when the loop was left in round \<open>i\<close>.
\<close>

definition bin_cycle ::
  "teleop_env \<Rightarrow> 8 word \<Rightarrow> real \<Rightarrow> (status \<times> teleop_event list) option" where
  "bin_cycle env target bin_cmd =
     (case bin_loop env target bin_cmd 0 0 [Cmd_vel Twist_zero] of
        None \<Rightarrow> None
      | Some (i, tr) \<Rightarrow>
          if isPreemptRequested env (Suc i) then Some (Preempted, tr)
          else Some (Succeeded, tr))"

definition processCommand ::
  "DriveVelocity \<Rightarrow> control_code \<Rightarrow> teleop_env \<Rightarrow> TeleopCode
     \<Rightarrow> (status \<times> teleop_event list) option" where
  "processCommand drive_stats K env code =
     (let move_cmd = Twist_zero in
      case code of
        STOP_DRIVEBASE \<Rightarrow> Some (Succeeded, [Cmd_vel move_cmd])
      | STOP_TURNTABLE \<Rightarrow> Some (Succeeded, [])
      | FORWARD \<Rightarrow>
          Some (Succeeded, [Cmd_vel (move_cmd\<lparr>twist_linear :=
            (twist_linear move_cmd)\<lparr>v3_x := getLinear drive_stats\<rparr>\<rparr>)])
      | BACKWARD \<Rightarrow>
          Some (Succeeded, [Cmd_vel (move_cmd\<lparr>twist_linear :=
            (twist_linear move_cmd)\<lparr>v3_x := - getLinear drive_stats\<rparr>\<rparr>)])
      | LEFT \<Rightarrow>
          Some (Succeeded, [Cmd_vel (move_cmd\<lparr>twist_angular :=
            (twist_angular move_cmd)\<lparr>v3_z := getAngular drive_stats\<rparr>\<rparr>)])
      | RIGHT \<Rightarrow>
          Some (Succeeded, [Cmd_vel (move_cmd\<lparr>twist_angular :=
            (twist_angular move_cmd)\<lparr>v3_z := - getAngular drive_stats\<rparr>\<rparr>)])
      | CLOCKWISE \<Rightarrow>
          Some (Succeeded, [Cmd_vel (move_cmd\<lparr>twist_angular :=
            (twist_angular move_cmd)\<lparr>v3_z := getAngular drive_stats\<rparr>\<rparr>)])
      | COUNTERCLOCKWISE \<Rightarrow>
          Some (Succeeded, [Cmd_vel (move_cmd\<lparr>twist_angular :=
            (twist_angular move_cmd)\<lparr>v3_z := - getAngular drive_stats\<rparr>\<rparr>)])
      | DIG \<Rightarrow>
          (let diggingTime =
             (case digging_time_call env of None \<Rightarrow> Duration_zero | Some d \<Rightarrow> d)
           in dig_loop env 0 [Dig_sendGoal diggingTime])
      | DUMP \<Rightarrow> bin_cycle env (RAISED K) (BIN_MAX K)
      | RESET_DUMPING \<Rightarrow> bin_cycle env (LOWERED K) (BIN_MIN K)
      | RESET_STARTING \<Rightarrow> Some (Succeeded, [Cmd_vel move_cmd])
      | UNRECOGNIZED \<Rightarrow> Some (Aborted, []))"

text \<open>
  \<^verbatim>\<open>query.response.code\<close> as it stands after the first \<open>n\<close> calls of the
  \<^verbatim>\<open>bin_state\<close> service: zero from the constructor of the message, then the code
  of the last call that succeeded.
\<close>

primrec query_code :: "teleop_env \<Rightarrow> nat \<Rightarrow> 8 word" where
  "query_code env 0 = 0"
| "query_code env (Suc n) =
     (case bin_state_call env n of None \<Rightarrow> query_code env n | Some c \<Rightarrow> c)"

text \<open>Round \<open>j\<close> of the bin loop is entered and ends with a bin command and a sleep.\<close>

definition bin_continue :: "teleop_env \<Rightarrow> 8 word \<Rightarrow> nat \<Rightarrow> bool" where
  "bin_continue env target j \<longleftrightarrow>
     \<not> isPreemptRequested env j \<and> ros_ok env j \<and> query_code env (Suc j) \<noteq> target"

definition bin_post ::
  "teleop_env \<Rightarrow> 8 word \<Rightarrow> real \<Rightarrow> nat \<Rightarrow> 8 word \<Rightarrow> teleop_event list
     \<Rightarrow> nat \<times> teleop_event list \<Rightarrow> bool" where
  "bin_post env target cmd i c tr r \<longleftrightarrow>
     (c = query_code env i \<longrightarrow>
       (\<exists>n. r = (i + n, tr @ replicate n (Bin_command cmd)) \<and>
            (\<forall>j. i \<le> j \<and> j < i + n \<longrightarrow> bin_continue env target j) \<and>
            \<not> bin_continue env target (i + n)))"

text \<open>Round \<open>j\<close> of the dig loop ends with a sleep.\<close>

definition dig_continue :: "teleop_env \<Rightarrow> nat \<Rightarrow> bool" where
  "dig_continue env j \<longleftrightarrow>
     \<not> dig_isDone env j \<and> \<not> isPreemptRequested env j \<and> ros_ok env j"

definition dig_exit :: "teleop_env \<Rightarrow> nat \<Rightarrow> teleop_event list \<Rightarrow> status \<times> teleop_event list" where
  "dig_exit env j tr =
     (if dig_isDone env j then (Succeeded, tr) else (Preempted, tr @ [Dig_cancelAllGoals]))"

definition dig_post ::
  "teleop_env \<Rightarrow> nat \<Rightarrow> teleop_event list \<Rightarrow> status \<times> teleop_event list \<Rightarrow> bool" where
  "dig_post env i tr r \<longleftrightarrow>
     (\<exists>n. r = dig_exit env (i + n) tr \<and>
          (\<forall>j. i \<le> j \<and> j < i + n \<longrightarrow> dig_continue env j) \<and>
          \<not> dig_continue env (i + n))"

section \<open>The localization action server\<close>

text \<open>
  The image and the camera calibration are passed on untouched, so their types are left
  open. \<^verbatim>\<open>number_found\<close> is only compared with 0 and is modelled as a count.
\<close>

record ('img, 'info) WrappedImage_response =
  image_data :: 'img
  camera_info :: 'info

record ArucoResult =
  number_found :: nat
  relative_pose :: PoseStamped

datatype ('img, 'info) localize_event =
    Aruco_sendGoal 'img 'info
  | Localize_bin PoseStamped

text \<open>
  What the outside world answers during one round of the loop of \<^verbatim>\<open>localize\<close>:
  the preemption flag and \<^verbatim>\<open>ros::ok()\<close> at the top, the image service (\<open>None\<close>
  when the call fails), \<^verbatim>\<open>aruco.waitForResult()\<close> (\<open>None\<close> when it returns
  false, else the result then read with \<^verbatim>\<open>getResult\<close>), the transform of
  \<^verbatim>\<open>TfManipulator::transform_pose\<close> for a pose and a target frame (\<open>None\<close> when
  it fails), the clock, and the answer of the \<^verbatim>\<open>localize_bin\<close> service to a
  request. A round only reads the answers its control flow reaches.
\<close>

record ('img, 'info) localize_round =
  server_isPreemptRequested :: bool
  round_ros_ok :: bool
  image_client_call :: "('img, 'info) WrappedImage_response option"
  aruco_waitForResult :: "ArucoResult option"
  transform_pose :: "PoseStamped \<Rightarrow> string \<Rightarrow> PoseStamped option"
  Time_now :: Time
  localize_bin_call :: "PoseStamped \<Rightarrow> bool"

text \<open>
  Lines 102 to 105 of \<^verbatim>\<open>localize\<close>, applied to the pose that
  \<^verbatim>\<open>transform_pose\<close> wrote: \<^verbatim>\<open>position.y *= -1\<close>, \<^verbatim>\<open>position.z *= -1\<close>,
  then the frame name and the time stamp of the header.
\<close>

definition stamp_bin_pose :: "Time \<Rightarrow> PoseStamped \<Rightarrow> PoseStamped" where
  "stamp_bin_pose now bin_pose =
     (let p = position (pose bin_pose) in
      bin_pose
        \<lparr>pose := (pose bin_pose)
           \<lparr>position := p\<lparr>pt_y := pt_y p * (- 1), pt_z := pt_z p * (- 1)\<rparr>\<rparr>,
         header := (header bin_pose)\<lparr>frame_id := ''odom'', stamp := now\<rparr>\<rparr>)"

text \<open>
  One pass through the body of \<^verbatim>\<open>while (true)\<close>: the events it causes, and
  \<open>Some\<close> of the status set before a \<^verbatim>\<open>break\<close>, or \<open>None\<close> when the pass ends
  in \<^verbatim>\<open>continue\<close> or falls through to the next round.
\<close>

definition localize_body ::
  "('img, 'info) localize_round \<Rightarrow> ('img, 'info) localize_event list \<times> status option" where
  "localize_body w =
     (if server_isPreemptRequested w \<or> \<not> round_ros_ok w then ([], Some Preempted)
      else case image_client_call w of
        None \<Rightarrow> ([], None)
      | Some request \<Rightarrow>
          (let sent = [Aruco_sendGoal (image_data request) (camera_info request)] in
           case aruco_waitForResult w of
             None \<Rightarrow> (sent, None)
           | Some result \<Rightarrow>
               if number_found result = 0 then (sent, None)
               else
                 (case transform_pose w (relative_pose result) ''base_footprint'' of
                    None \<Rightarrow> (sent, None)
                  | Some bin_pose0 \<Rightarrow>
                      (let bin_pose = stamp_bin_pose (Time_now w) bin_pose0 in
                       if localize_bin_call w bin_pose
                       then (sent @ [Localize_bin bin_pose], Some Succeeded)
                       else (sent @ [Localize_bin bin_pose], None)))))"

text \<open>The loop: round \<open>i\<close> sees \<open>env i\<close>. A loop that never leaves is \<open>None\<close>.\<close>

partial_function (option) localize_loop ::
  "(nat \<Rightarrow> ('img, 'info) localize_round) \<Rightarrow> nat \<Rightarrow> ('img, 'info) localize_event list
     \<Rightarrow> (status \<times> ('img, 'info) localize_event list) option" where
  "localize_loop env i tr =
     (case localize_body (env i) of
        (evs, None) \<Rightarrow> localize_loop env (Suc i) (tr @ evs)
      | (evs, Some st) \<Rightarrow> Some (st, tr @ evs))"

definition localize ::
  "(nat \<Rightarrow> ('img, 'info) localize_round)
     \<Rightarrow> (status \<times> ('img, 'info) localize_event list) option" where
  "localize env = localize_loop env 0 []"

text \<open>The requests sent to the \<^verbatim>\<open>localize_bin\<close> service, in order.\<close>

fun commit_calls :: "('img, 'info) localize_event list \<Rightarrow> PoseStamped list" where
  "commit_calls [] = []"
| "commit_calls (Localize_bin p # evs) = p # commit_calls evs"
| "commit_calls (Aruco_sendGoal a b # evs) = commit_calls evs"

text \<open>The events of the rounds \<open>i, \<dots>, i + n - 1\<close>, one after the other.\<close>

primrec rounds_events ::
  "(nat \<Rightarrow> ('img, 'info) localize_round) \<Rightarrow> nat \<Rightarrow> nat \<Rightarrow> ('img, 'info) localize_event list" where
  "rounds_events env i 0 = []"
| "rounds_events env i (Suc n) = fst (localize_body (env i)) @ rounds_events env (Suc i) n"

definition localize_post ::
  "(nat \<Rightarrow> ('img, 'info) localize_round) \<Rightarrow> nat \<Rightarrow> ('img, 'info) localize_event list
     \<Rightarrow> status \<times> ('img, 'info) localize_event list \<Rightarrow> bool" where
  "localize_post env i tr r \<longleftrightarrow>
     (\<exists>n st. r = (st, tr @ rounds_events env i (Suc n)) \<and>
          (\<forall>j. i \<le> j \<and> j < i + n \<longrightarrow> snd (localize_body (env j)) = None) \<and>
          snd (localize_body (env (i + n))) = Some st)"

text \<open>
  The five ways a round that was not preempted fails to localize: the image service
  call fails, the marker detection cannot be reached, it finds no marker, the transform
  fails, or the \<^verbatim>\<open>localize_bin\<close> service refuses the pose.
\<close>

definition transient_failure :: "('img, 'info) localize_round \<Rightarrow> bool" where
  "transient_failure w =
     (case image_client_call w of
        None \<Rightarrow> True
      | Some request \<Rightarrow>
          (case aruco_waitForResult w of
             None \<Rightarrow> True
           | Some result \<Rightarrow>
               number_found result = 0 \<or>
               (case transform_pose w (relative_pose result) ''base_footprint'' of
                  None \<Rightarrow> True
                | Some bin_pose \<Rightarrow>
                    \<not> localize_bin_call w (stamp_bin_pose (Time_now w) bin_pose))))"

text \<open>
  Two kinds of round named by the claims about the loop: a round that gets an image and
  a detection result with no marker in it, and a round in which markers are found, the
  transform succeeds and the \<^verbatim>\<open>localize_bin\<close> service accepts the pose.
\<close>

definition sees_no_marker :: "('img, 'info) localize_round \<Rightarrow> bool" where
  "sees_no_marker w \<longleftrightarrow>
     \<not> server_isPreemptRequested w \<and> round_ros_ok w \<and>
     (case image_client_call w of
        None \<Rightarrow> False
      | Some request \<Rightarrow>
          (case aruco_waitForResult w of
             None \<Rightarrow> False
           | Some result \<Rightarrow> number_found result = 0))"

definition commits_with_success :: "('img, 'info) localize_round \<Rightarrow> bool" where
  "commits_with_success w \<longleftrightarrow>
     \<not> server_isPreemptRequested w \<and> round_ros_ok w \<and>
     (case image_client_call w of
        None \<Rightarrow> False
      | Some request \<Rightarrow>
          (case aruco_waitForResult w of
             None \<Rightarrow> False
           | Some result \<Rightarrow>
               number_found result \<noteq> 0 \<and>
               (case transform_pose w (relative_pose result) ''base_footprint'' of
                  None \<Rightarrow> False
                | Some bin_pose \<Rightarrow>
                    localize_bin_call w (stamp_bin_pose (Time_now w) bin_pose))))"

section \<open>Concrete runs\<close>

text \<open>
  The velocities \<^verbatim>\<open>main\<close> falls back to (0.25 and 0.1), a choice of control codes,
  and some behaviours of the outside world, used to run the servers on concrete inputs.
\<close>

definition default_drive :: DriveVelocity where
  "default_drive = \<lparr>getLinear = 1 / 4, getAngular = 1 / 10\<rparr>"

definition sample_codes :: control_code where
  "sample_codes = \<lparr>BIN_MAX = 1, BIN_MIN = 0, RAISED = 1, LOWERED = 0\<rparr>"

text \<open>The duration service is down; the digging task is done at the first look.\<close>

definition no_duration_env :: teleop_env where
  "no_duration_env =
     \<lparr>digging_time_call = None, dig_isDone = (\<lambda>n. True),
      isPreemptRequested = (\<lambda>n. False), ros_ok = (\<lambda>n. True),
      bin_state_call = (\<lambda>n. None)\<rparr>"


text \<open>The node is shutting down when the command arrives; nobody asks for preemption.\<close>

definition shutdown_env :: teleop_env where
  "shutdown_env =
     \<lparr>digging_time_call = None, dig_isDone = (\<lambda>n. True),
      isPreemptRequested = (\<lambda>n. False), ros_ok = (\<lambda>n. False),
      bin_state_call = (\<lambda>n. Some 0)\<rparr>"


text \<open>As before, but the second poll fails.\<close>

definition failed_second_poll_env :: teleop_env where
  "failed_second_poll_env =
     \<lparr>digging_time_call = None, dig_isDone = (\<lambda>n. True),
      isPreemptRequested = (\<lambda>n. False), ros_ok = (\<lambda>n. True),
      bin_state_call = (\<lambda>n. if n = 0 then Some 0 else if n = 1 then None else Some 1)\<rparr>"

text \<open>Digging for 30 s never finishes; preemption is requested from the third look on.\<close>

definition dig_preempted_env :: teleop_env where
  "dig_preempted_env =
     \<lparr>digging_time_call = Some \<lparr>sec = 30, nsec = 0\<rparr>, dig_isDone = (\<lambda>n. False),
      isPreemptRequested = (\<lambda>n. 2 \<le> n), ros_ok = (\<lambda>n. True),
      bin_state_call = (\<lambda>n. None)\<rparr>"

text \<open>Rounds of the localization loop; images and calibrations are just numbered.\<close>

definition camera_pose :: PoseStamped where
  "camera_pose =
     \<lparr>header = \<lparr>header_seq = 7, stamp = \<lparr>sec = 100, nsec = 0\<rparr>, frame_id = ''rear_cam_link''\<rparr>,
      pose = \<lparr>position = \<lparr>pt_x = 1, pt_y = 2, pt_z = 3\<rparr>,
              orientation = \<lparr>q_x = 0, q_y = 0, q_z = 0, q_w = 1\<rparr>\<rparr>\<rparr>"

definition base_pose :: PoseStamped where
  "base_pose =
     \<lparr>header = \<lparr>header_seq = 7, stamp = \<lparr>sec = 100, nsec = 0\<rparr>, frame_id = ''base_footprint''\<rparr>,
      pose = \<lparr>position = \<lparr>pt_x = 4, pt_y = 5, pt_z = 6\<rparr>,
              orientation = \<lparr>q_x = 0, q_y = 0, q_z = 1, q_w = 0\<rparr>\<rparr>\<rparr>"

definition no_marker_round :: "(nat, nat) localize_round" where
  "no_marker_round =
     \<lparr>server_isPreemptRequested = False, round_ros_ok = True,
      image_client_call = Some \<lparr>image_data = 0, camera_info = 0\<rparr>,
      aruco_waitForResult = Some \<lparr>number_found = 0, relative_pose = camera_pose\<rparr>,
      transform_pose = (\<lambda>p f. None),
      Time_now = \<lparr>sec = 200, nsec = 0\<rparr>,
      localize_bin_call = (\<lambda>p. False)\<rparr>"

definition marker_round :: "(nat, nat) localize_round" where
  "marker_round =
     \<lparr>server_isPreemptRequested = False, round_ros_ok = True,
      image_client_call = Some \<lparr>image_data = 1, camera_info = 0\<rparr>,
      aruco_waitForResult = Some \<lparr>number_found = 2, relative_pose = camera_pose\<rparr>,
      transform_pose = (\<lambda>p f. Some base_pose),
      Time_now = \<lparr>sec = 300, nsec = 0\<rparr>,
      localize_bin_call = (\<lambda>p. True)\<rparr>"

definition preempt_round :: "(nat, nat) localize_round" where
  "preempt_round = marker_round\<lparr>server_isPreemptRequested := True\<rparr>"

definition markers_in_third_round :: "nat \<Rightarrow> (nat, nat) localize_round" where
  "markers_in_third_round i = (if i < 2 then no_marker_round else marker_round)"

definition preempt_in_second_round :: "nat \<Rightarrow> (nat, nat) localize_round" where
  "preempt_in_second_round i = (if i < 1 then no_marker_round else preempt_round)"

section \<open>Properties of the teleop action server\<close>

subsection \<open>The bin loop in closed form\<close>

lemma bin_loop_step:
  "bin_continue env target i \<Longrightarrow>
   bin_loop env target cmd i (query_code env i) tr =
   bin_loop env target cmd (Suc i) (query_code env (Suc i)) (tr @ [Bin_command cmd])"
  apply (subst bin_loop.simps)
  apply (simp only: bin_continue_def Let_def query_code.simps if_True if_False simp_thms)
  done

lemma bin_loop_leave:
  "\<not> bin_continue env target i \<Longrightarrow>
   bin_loop env target cmd i (query_code env i) tr = Some (i, tr)"
  apply (subst bin_loop.simps)
  apply (simp only: bin_continue_def Let_def query_code.simps de_Morgan_conj not_not)
  apply (elim disjE)
    apply (simp_all only: if_True if_False simp_thms if_cancel)
  done

lemma bin_loop_run:
  "(\<forall>j. i \<le> j \<and> j < i + n \<longrightarrow> bin_continue env target j) \<Longrightarrow>
   bin_loop env target cmd i (query_code env i) tr =
   bin_loop env target cmd (i + n) (query_code env (i + n)) (tr @ replicate n (Bin_command cmd))"
proof (induction n arbitrary: i tr)
  case 0
  show ?case by simp
next
  case (Suc n)
  have first: "bin_continue env target i" using Suc.prems by simp
  have rest: "\<forall>j. Suc i \<le> j \<and> j < Suc i + n \<longrightarrow> bin_continue env target j"
    using Suc.prems by simp
  have "bin_loop env target cmd i (query_code env i) tr =
        bin_loop env target cmd (Suc i) (query_code env (Suc i)) (tr @ [Bin_command cmd])"
    using first by (rule bin_loop_step)
  also have "\<dots> = bin_loop env target cmd (Suc i + n) (query_code env (Suc i + n))
        ((tr @ [Bin_command cmd]) @ replicate n (Bin_command cmd))"
    using rest by (rule Suc.IH)
  finally show ?case by (simp only: add_Suc add_Suc_right append_assoc append_Cons append_Nil replicate_Suc)
qed

lemma bin_loop_SomeD_aux:
  assumes "bin_loop env target cmd i c tr = Some r"
  shows "bin_post env target cmd i c tr r"
proof (rule bin_loop.raw_induct [where P = bin_post, OF _ assms])
  fix loop :: "teleop_env \<Rightarrow> 8 word \<Rightarrow> real \<Rightarrow> nat \<Rightarrow> 8 word \<Rightarrow> teleop_event list
     \<Rightarrow> (nat \<times> teleop_event list) option"
  fix env target cmd i c tr r
  assume IH: "\<And>env target cmd i c tr r. loop env target cmd i c tr = Some r \<Longrightarrow> bin_post env target cmd i c tr r"
  assume body: "(if \<not> isPreemptRequested env i \<and> ros_ok env i then
        (let code' = (case bin_state_call env i of None \<Rightarrow> c | Some c \<Rightarrow> c) in
         if code' = target then Some (i, tr)
         else loop env target cmd (Suc i) code' (tr @ [Bin_command cmd]))
      else Some (i, tr)) = Some r"
  show "bin_post env target cmd i c tr r"
    unfolding bin_post_def
  proof
    assume c: "c = query_code env i"
    have code': "(case bin_state_call env i of None \<Rightarrow> c | Some x \<Rightarrow> x) = query_code env (Suc i)"
      unfolding c by simp
    show "\<exists>n. r = (i + n, tr @ replicate n (Bin_command cmd)) \<and>
        (\<forall>j. i \<le> j \<and> j < i + n \<longrightarrow> bin_continue env target j) \<and>
        \<not> bin_continue env target (i + n)"
    proof (cases "bin_continue env target i")
      case False
      have "r = (i, tr)"
      proof (cases "\<not> isPreemptRequested env i \<and> ros_ok env i")
        case True
        with False have "query_code env (Suc i) = target"
          unfolding bin_continue_def by blast
        with body True show ?thesis
          unfolding Let_def code' by simp
      next
        case False
        with body show ?thesis by simp
      qed
      with False show ?thesis by (intro exI [of _ 0]) auto
    next
      case True
      then have "\<not> isPreemptRequested env i \<and> ros_ok env i" "query_code env (Suc i) \<noteq> target"
        unfolding bin_continue_def by blast+
      with body have "loop env target cmd (Suc i) (query_code env (Suc i)) (tr @ [Bin_command cmd]) = Some r"
        unfolding Let_def code' by simp
      from IH [OF this, unfolded bin_post_def, rule_format, OF refl] obtain n where
        n: "r = (Suc i + n, (tr @ [Bin_command cmd]) @ replicate n (Bin_command cmd))"
          "\<forall>j. Suc i \<le> j \<and> j < Suc i + n \<longrightarrow> bin_continue env target j"
          "\<not> bin_continue env target (Suc i + n)" by (elim exE conjE)
      have "\<forall>j. i \<le> j \<and> j < i + Suc n \<longrightarrow> bin_continue env target j"
      proof (intro allI impI)
        fix j assume j: "i \<le> j \<and> j < i + Suc n"
        show "bin_continue env target j"
        proof (cases "j = i")
          case True
          with \<open>bin_continue env target i\<close> show ?thesis by simp
        next
          case False
          with j have "Suc i \<le> j \<and> j < Suc i + n" by arith
          with n(2) show ?thesis by blast
        qed
      qed
      with n(1,3) show ?thesis
        by (intro exI [of _ "Suc n"]) simp
    qed
  qed
qed

lemma bin_loop_SomeD:
  assumes "bin_loop env target cmd 0 0 tr = Some r"
  shows "\<exists>k. r = (k, tr @ replicate k (Bin_command cmd)) \<and>
        (\<forall>j<k. bin_continue env target j) \<and> \<not> bin_continue env target k"
proof -
  have "bin_post env target cmd 0 0 tr r" using assms by (rule bin_loop_SomeD_aux)
  then show ?thesis unfolding bin_post_def by simp
qed

lemma bin_loop_first_exit:
  assumes "\<forall>j<k. bin_continue env target j" and "\<not> bin_continue env target k"
  shows "bin_loop env target cmd 0 0 tr = Some (k, tr @ replicate k (Bin_command cmd))"
proof -
  have "bin_loop env target cmd 0 (query_code env 0) tr =
        bin_loop env target cmd (0 + k) (query_code env (0 + k)) (tr @ replicate k (Bin_command cmd))"
    using assms(1) by (intro bin_loop_run) simp
  also have "\<dots> = Some (k, tr @ replicate k (Bin_command cmd))"
    using assms(2) by (simp add: bin_loop_leave)
  finally show ?thesis by simp
qed

lemma option_eqI: "(\<And>r. a = Some r \<longleftrightarrow> b = Some r) \<Longrightarrow> a = b"
  by (cases a; cases b) auto

lemma bin_loop_cong:
  assumes "\<And>j. bin_continue e1 target j = bin_continue e2 target j"
  shows "bin_loop e1 target cmd 0 0 tr = bin_loop e2 target cmd 0 0 tr"
proof (rule option_eqI)
  fix r
  show "bin_loop e1 target cmd 0 0 tr = Some r \<longleftrightarrow> bin_loop e2 target cmd 0 0 tr = Some r"
  proof
    assume "bin_loop e1 target cmd 0 0 tr = Some r"
    from bin_loop_SomeD [OF this] obtain k where
      k: "r = (k, tr @ replicate k (Bin_command cmd))"
         "\<forall>j<k. bin_continue e1 target j" "\<not> bin_continue e1 target k" by (elim exE conjE)
    from k(2,3) have "\<forall>j<k. bin_continue e2 target j" "\<not> bin_continue e2 target k"
      by (simp_all add: assms)
    then show "bin_loop e2 target cmd 0 0 tr = Some r"
      unfolding k(1) by (rule bin_loop_first_exit)
  next
    assume "bin_loop e2 target cmd 0 0 tr = Some r"
    from bin_loop_SomeD [OF this] obtain k where
      k: "r = (k, tr @ replicate k (Bin_command cmd))"
         "\<forall>j<k. bin_continue e2 target j" "\<not> bin_continue e2 target k" by (elim exE conjE)
    from k(2,3) have "\<forall>j<k. bin_continue e1 target j" "\<not> bin_continue e1 target k"
      by (simp_all add: assms)
    then show "bin_loop e1 target cmd 0 0 tr = Some r"
      unfolding k(1) by (rule bin_loop_first_exit)
  qed
qed


subsection \<open>Drive commands\<close>

text \<open>
  C5. What each immediate drive command publishes: one velocity message, then
  Succeeded. Forward and Backward put plus and minus the maximal linear speed into
  \<open>linear.x\<close>. Left and Clockwise both put plus the maximal angular speed into
  \<open>angular.z\<close>, Right and Counterclockwise both minus: the code pairs Clockwise with
  Left and Counterclockwise with Right, where the claim pairs Left with Counterclockwise
  and Right with Clockwise.
\<close>

theorem processCommand_drive_commands:
  "processCommand ds K env STOP_DRIVEBASE = Some (Succeeded, [Cmd_vel Twist_zero]) \<and>
   processCommand ds K env FORWARD = Some (Succeeded,
     [Cmd_vel \<lparr>twist_linear = \<lparr>v3_x = getLinear ds, v3_y = 0, v3_z = 0\<rparr>,
               twist_angular = Vector3_zero\<rparr>]) \<and>
   processCommand ds K env BACKWARD = Some (Succeeded,
     [Cmd_vel \<lparr>twist_linear = \<lparr>v3_x = - getLinear ds, v3_y = 0, v3_z = 0\<rparr>,
               twist_angular = Vector3_zero\<rparr>]) \<and>
   processCommand ds K env LEFT = Some (Succeeded,
     [Cmd_vel \<lparr>twist_linear = Vector3_zero,
               twist_angular = \<lparr>v3_x = 0, v3_y = 0, v3_z = getAngular ds\<rparr>\<rparr>]) \<and>
   processCommand ds K env RIGHT = Some (Succeeded,
     [Cmd_vel \<lparr>twist_linear = Vector3_zero,
               twist_angular = \<lparr>v3_x = 0, v3_y = 0, v3_z = - getAngular ds\<rparr>\<rparr>]) \<and>
   processCommand ds K env CLOCKWISE = Some (Succeeded,
     [Cmd_vel \<lparr>twist_linear = Vector3_zero,
               twist_angular = \<lparr>v3_x = 0, v3_y = 0, v3_z = getAngular ds\<rparr>\<rparr>]) \<and>
   processCommand ds K env COUNTERCLOCKWISE = Some (Succeeded,
     [Cmd_vel \<lparr>twist_linear = Vector3_zero,
               twist_angular = \<lparr>v3_x = 0, v3_y = 0, v3_z = - getAngular ds\<rparr>\<rparr>]) \<and>
   processCommand ds K env CLOCKWISE = processCommand ds K env LEFT \<and>
   processCommand ds K env COUNTERCLOCKWISE = processCommand ds K env RIGHT"
  by (simp add: processCommand_def Twist_zero_def Vector3_zero_def)

subsection \<open>Dump and Reset-Dumping\<close>

lemma processCommand_DUMP:
  "processCommand ds K env DUMP = bin_cycle env (RAISED K) (BIN_MAX K)"
  by (simp add: processCommand_def)

lemma processCommand_RESET_DUMPING:
  "processCommand ds K env RESET_DUMPING = bin_cycle env (LOWERED K) (BIN_MIN K)"
  by (simp add: processCommand_def)




text \<open>
  When \<^verbatim>\<open>ros::ok()\<close> is false the loop is left without a poll, and since only the
  preemption flag is looked at behind the loop, the cycle is reported as Succeeded.
\<close>

lemma dump_succeeds_on_shutdown:
  "processCommand default_drive sample_codes shutdown_env DUMP =
     Some (Succeeded, [Cmd_vel Twist_zero])"
proof -
  have "\<not> bin_continue shutdown_env (RAISED sample_codes) 0"
    by (simp add: bin_continue_def shutdown_env_def)
  then have "bin_loop shutdown_env (RAISED sample_codes) (BIN_MAX sample_codes) 0 0
      [Cmd_vel Twist_zero] = Some (0, [Cmd_vel Twist_zero] @ replicate 0 (Bin_command (BIN_MAX sample_codes)))"
    by (intro bin_loop_first_exit) simp_all
  then show ?thesis
    by (simp add: processCommand_DUMP bin_cycle_def) (simp add: shutdown_env_def)
qed

text \<open>
  A failed call leaves the response code as it was, so replacing the failed call by
  one that returns that code changes nothing the loop can see.
\<close>

lemma query_code_patch:
  assumes "bin_state_call env n = None"
  shows "query_code (env\<lparr>bin_state_call := (bin_state_call env)(n := Some (query_code env n))\<rparr>) m
         = query_code env m"
proof (induction m)
  case 0
  show ?case by simp
next
  case (Suc m)
  show ?case
  proof (cases "m = n")
    case True
    with Suc assms show ?thesis by simp
  next
    case False
    with Suc show ?thesis by (simp split: option.splits)
  qed
qed

lemma bin_cycle_patch:
  assumes "bin_state_call env n = None"
  shows "bin_cycle (env\<lparr>bin_state_call := (bin_state_call env)(n := Some (query_code env n))\<rparr>)
           target cmd = bin_cycle env target cmd"
proof -
  let ?env' = "env\<lparr>bin_state_call := (bin_state_call env)(n := Some (query_code env n))\<rparr>"
  have "\<And>j. bin_continue ?env' target j = bin_continue env target j"
    unfolding bin_continue_def query_code_patch [OF assms] by simp
  then have "bin_loop ?env' target cmd 0 0 [Cmd_vel Twist_zero] =
             bin_loop env target cmd 0 0 [Cmd_vel Twist_zero]"
    by (rule bin_loop_cong)
  then show ?thesis unfolding bin_cycle_def by (simp split: option.splits)
qed

text \<open>
  C10. When the \<^verbatim>\<open>bin_state\<close> call of round \<open>n\<close> fails, the loop compares the
  target with the code \<open>c\<close> the response held before the call (zero before the first
  successful call) and goes on as after a successful poll; and the whole Dump or
  Reset-Dumping cycle runs exactly as it would had that poll succeeded and returned that
  code.
\<close>

theorem failed_bin_state_poll_unnoticed:
  assumes "bin_state_call env n = None"
  shows "(\<not> isPreemptRequested env n \<and> ros_ok env n \<longrightarrow>
            bin_loop env target cmd n c tr =
              (if c = target then Some (n, tr)
               else bin_loop env target cmd (Suc n) c (tr @ [Bin_command cmd]))) \<and>
         query_code env (Suc n) = query_code env n \<and>
         processCommand ds K
           (env\<lparr>bin_state_call := (bin_state_call env)(n := Some (query_code env n))\<rparr>) DUMP
           = processCommand ds K env DUMP \<and>
         processCommand ds K
           (env\<lparr>bin_state_call := (bin_state_call env)(n := Some (query_code env n))\<rparr>)
           RESET_DUMPING
           = processCommand ds K env RESET_DUMPING"
proof (intro conjI impI)
  assume "\<not> isPreemptRequested env n \<and> ros_ok env n"
  then show "bin_loop env target cmd n c tr =
      (if c = target then Some (n, tr)
       else bin_loop env target cmd (Suc n) c (tr @ [Bin_command cmd]))"
    using assms by (subst bin_loop.simps) (simp only: Let_def option.case if_True simp_thms)
next
  show "query_code env (Suc n) = query_code env n" using assms by simp
next
  show "processCommand ds K
      (env\<lparr>bin_state_call := (bin_state_call env)(n := Some (query_code env n))\<rparr>) DUMP
      = processCommand ds K env DUMP"
    unfolding processCommand_DUMP using assms by (rule bin_cycle_patch)
next
  show "processCommand ds K
      (env\<lparr>bin_state_call := (bin_state_call env)(n := Some (query_code env n))\<rparr>)
      RESET_DUMPING = processCommand ds K env RESET_DUMPING"
    unfolding processCommand_RESET_DUMPING using assms by (rule bin_cycle_patch)
qed

theorem failed_bin_state_poll_unnoticed_witness:
  "bin_state_call failed_second_poll_env 1 = None \<and>
   query_code failed_second_poll_env (Suc 1) = 0 \<and>
   processCommand default_drive sample_codes
     (failed_second_poll_env\<lparr>bin_state_call :=
        (bin_state_call failed_second_poll_env)(1 := Some (query_code failed_second_poll_env 1))\<rparr>)
     DUMP
   = processCommand default_drive sample_codes failed_second_poll_env DUMP"
proof -
  have h: "bin_state_call failed_second_poll_env 1 = None"
    by (simp add: failed_second_poll_env_def)
  have "query_code failed_second_poll_env 1 = 0"
    by (simp add: failed_second_poll_env_def)
  with h failed_bin_state_poll_unnoticed [OF h, of 0 0 0 "[]" default_drive sample_codes]
  show ?thesis by simp
qed

subsection \<open>Dig\<close>

lemma dig_loop_step:
  "dig_continue env i \<Longrightarrow> dig_loop env i tr = dig_loop env (Suc i) tr"
  by (subst dig_loop.simps) (simp add: dig_continue_def)

lemma dig_loop_leave:
  "\<not> dig_continue env i \<Longrightarrow> dig_loop env i tr = Some (dig_exit env i tr)"
  by (subst dig_loop.simps) (auto simp add: dig_continue_def dig_exit_def)

lemma dig_loop_run:
  "(\<forall>j. i \<le> j \<and> j < i + n \<longrightarrow> dig_continue env j) \<Longrightarrow>
   dig_loop env i tr = dig_loop env (i + n) tr"
proof (induction n arbitrary: i)
  case 0
  show ?case by simp
next
  case (Suc n)
  have first: "dig_continue env i" using Suc.prems by simp
  have rest: "\<forall>j. Suc i \<le> j \<and> j < Suc i + n \<longrightarrow> dig_continue env j"
    using Suc.prems by simp
  have "dig_loop env i tr = dig_loop env (Suc i) tr"
    using first by (rule dig_loop_step)
  also have "\<dots> = dig_loop env (Suc i + n) tr"
    using rest by (rule Suc.IH)
  finally show ?case by simp
qed

lemma dig_loop_first_exit:
  assumes "\<forall>j<k. dig_continue env j" and "\<not> dig_continue env k"
  shows "dig_loop env 0 tr = Some (dig_exit env k tr)"
proof -
  have "dig_loop env 0 tr = dig_loop env (0 + k) tr"
    using assms(1) by (intro dig_loop_run) simp
  with assms(2) show ?thesis by (simp add: dig_loop_leave)
qed

lemma dig_loop_SomeD_aux:
  assumes "dig_loop env i tr = Some r"
  shows "dig_post env i tr r"
proof (rule dig_loop.raw_induct [where P = dig_post, OF _ assms])
  fix loop :: "teleop_env \<Rightarrow> nat \<Rightarrow> teleop_event list \<Rightarrow> (status \<times> teleop_event list) option"
  fix env i tr r
  assume IH: "\<And>env i tr r. loop env i tr = Some r \<Longrightarrow> dig_post env i tr r"
  assume body: "(if \<not> dig_isDone env i then
        (if isPreemptRequested env i \<or> \<not> ros_ok env i
         then Some (Preempted, tr @ [Dig_cancelAllGoals])
         else loop env (Suc i) tr)
      else Some (Succeeded, tr)) = Some r"
  show "dig_post env i tr r"
  proof (cases "dig_continue env i")
    case False
    with body have "r = dig_exit env i tr"
      by (auto simp add: dig_continue_def dig_exit_def split: if_splits)
    with False show ?thesis
      unfolding dig_post_def by (intro exI [of _ 0]) auto
  next
    case True
    with body have "loop env (Suc i) tr = Some r"
      by (simp add: dig_continue_def)
    from IH [OF this, unfolded dig_post_def] obtain n where
      n: "r = dig_exit env (Suc i + n) tr"
         "\<forall>j. Suc i \<le> j \<and> j < Suc i + n \<longrightarrow> dig_continue env j"
         "\<not> dig_continue env (Suc i + n)" by (elim exE conjE)
    have "\<forall>j. i \<le> j \<and> j < i + Suc n \<longrightarrow> dig_continue env j"
    proof (intro allI impI)
      fix j assume j: "i \<le> j \<and> j < i + Suc n"
      show "dig_continue env j"
      proof (cases "j = i")
        case True
        with \<open>dig_continue env i\<close> show ?thesis by simp
      next
        case False
        with j have "Suc i \<le> j \<and> j < Suc i + n" by arith
        with n(2) show ?thesis by blast
      qed
    qed
    with n(1,3) show ?thesis
      unfolding dig_post_def by (intro exI [of _ "Suc n"]) simp
  qed
qed

lemma dig_loop_SomeD:
  assumes "dig_loop env 0 tr = Some r"
  shows "\<exists>k. r = dig_exit env k tr \<and> (\<forall>j<k. dig_continue env j) \<and> \<not> dig_continue env k"
proof -
  have "dig_post env 0 tr r" using assms by (rule dig_loop_SomeD_aux)
  then show ?thesis unfolding dig_post_def by simp
qed

lemma dig_loop_cong:
  assumes "dig_isDone e1 = dig_isDone e2"
    and "isPreemptRequested e1 = isPreemptRequested e2"
    and "ros_ok e1 = ros_ok e2"
  shows "dig_loop e1 0 tr = dig_loop e2 0 tr"
proof (rule option_eqI)
  fix r
  have c: "\<And>j. dig_continue e1 j = dig_continue e2 j"
    unfolding dig_continue_def assms by simp
  have x: "\<And>j. dig_exit e1 j tr = dig_exit e2 j tr"
    unfolding dig_exit_def assms by simp
  show "dig_loop e1 0 tr = Some r \<longleftrightarrow> dig_loop e2 0 tr = Some r"
  proof
    assume "dig_loop e1 0 tr = Some r"
    from dig_loop_SomeD [OF this] obtain k where
      k: "r = dig_exit e1 k tr" "\<forall>j<k. dig_continue e1 j" "\<not> dig_continue e1 k"
      by (elim exE conjE)
    from k(2,3) have "\<forall>j<k. dig_continue e2 j" "\<not> dig_continue e2 k"
      by (simp_all add: c)
    then show "dig_loop e2 0 tr = Some r"
      unfolding k(1) x by (rule dig_loop_first_exit)
  next
    assume "dig_loop e2 0 tr = Some r"
    from dig_loop_SomeD [OF this] obtain k where
      k: "r = dig_exit e2 k tr" "\<forall>j<k. dig_continue e2 j" "\<not> dig_continue e2 k"
      by (elim exE conjE)
    from k(2,3) have "\<forall>j<k. dig_continue e1 j" "\<not> dig_continue e1 k"
      by (simp_all add: c)
    then have "dig_loop e1 0 tr = Some (dig_exit e1 k tr)"
      by (rule dig_loop_first_exit)
    then show "dig_loop e1 0 tr = Some r"
      unfolding k(1) x .
  qed
qed

lemma dig_loop_preempt:
  "(\<forall>j. i \<le> j \<and> j \<le> i + n \<longrightarrow> \<not> dig_isDone env j) \<Longrightarrow>
   isPreemptRequested env (i + n) \<Longrightarrow>
   dig_loop env i tr = Some (Preempted, tr @ [Dig_cancelAllGoals])"
proof (induction n arbitrary: i)
  case 0
  then have "\<not> dig_isDone env i" "isPreemptRequested env i" by simp_all
  then show ?case by (subst dig_loop.simps) simp
next
  case (Suc n)
  have nd: "\<not> dig_isDone env i" using Suc.prems(1) by simp
  show ?case
  proof (cases "isPreemptRequested env i \<or> \<not> ros_ok env i")
    case True
    with nd show ?thesis by (subst dig_loop.simps) simp
  next
    case False
    with nd have "dig_loop env i tr = dig_loop env (Suc i) tr"
      by (intro dig_loop_step) (simp add: dig_continue_def)
    moreover have "\<forall>j. Suc i \<le> j \<and> j \<le> Suc i + n \<longrightarrow> \<not> dig_isDone env j"
      using Suc.prems(1) by simp
    moreover have "isPreemptRequested env (Suc i + n)"
      using Suc.prems(2) by simp
    ultimately show ?thesis using Suc.IH [of "Suc i"] by simp
  qed
qed

lemma processCommand_DIG:
  "processCommand ds K env DIG =
     dig_loop env 0
       [Dig_sendGoal (case digging_time_call env of None \<Rightarrow> Duration_zero | Some d \<Rightarrow> d)]"
  by (simp add: processCommand_def)

text \<open>
  C1, as the code has it. The result of the \<^verbatim>\<open>digging_time\<close> call is not looked
  at. When the call fails, the digging goal is sent with the zero duration before the
  polling loop is entered, and the Dig cycle runs exactly as after a call that succeeded
  and returned the zero duration. As soon as some round leaves the loop (the task is
  done, or preemption or a shutdown is seen), the cycle returns: Succeeded with the goal
  sent when the task was done, Preempted with the goal sent and then cancelled
  otherwise. A cycle that returns never ends Aborted, and its first event is that goal.
\<close>

theorem dig_ignores_failed_duration_call:
  assumes "digging_time_call env = None"
  shows "processCommand ds K env DIG = dig_loop env 0 [Dig_sendGoal Duration_zero] \<and>
         processCommand ds K env DIG =
           processCommand ds K (env\<lparr>digging_time_call := Some Duration_zero\<rparr>) DIG \<and>
         ((\<forall>j<k. \<not> dig_isDone env j \<and> \<not> isPreemptRequested env j \<and> ros_ok env j) \<and>
          (dig_isDone env k \<or> isPreemptRequested env k \<or> \<not> ros_ok env k) \<longrightarrow>
            processCommand ds K env DIG =
              Some (if dig_isDone env k then (Succeeded, [Dig_sendGoal Duration_zero])
                    else (Preempted, [Dig_sendGoal Duration_zero, Dig_cancelAllGoals]))) \<and>
         (\<forall>st tr. processCommand ds K env DIG = Some (st, tr) \<longrightarrow>
            st \<noteq> Aborted \<and> (\<exists>tr'. tr = Dig_sendGoal Duration_zero # tr'))"
proof (intro conjI)
  show start: "processCommand ds K env DIG = dig_loop env 0 [Dig_sendGoal Duration_zero]"
    unfolding processCommand_DIG using assms by simp
  have "dig_loop env 0 [Dig_sendGoal Duration_zero] =
        dig_loop (env\<lparr>digging_time_call := Some Duration_zero\<rparr>) 0 [Dig_sendGoal Duration_zero]"
    by (rule dig_loop_cong) simp_all
  then show "processCommand ds K env DIG =
      processCommand ds K (env\<lparr>digging_time_call := Some Duration_zero\<rparr>) DIG"
    unfolding processCommand_DIG using assms by simp
  show "(\<forall>j<k. \<not> dig_isDone env j \<and> \<not> isPreemptRequested env j \<and> ros_ok env j) \<and>
      (dig_isDone env k \<or> isPreemptRequested env k \<or> \<not> ros_ok env k) \<longrightarrow>
      processCommand ds K env DIG =
        Some (if dig_isDone env k then (Succeeded, [Dig_sendGoal Duration_zero])
              else (Preempted, [Dig_sendGoal Duration_zero, Dig_cancelAllGoals]))"
  proof
    assume h: "(\<forall>j<k. \<not> dig_isDone env j \<and> \<not> isPreemptRequested env j \<and> ros_ok env j) \<and>
      (dig_isDone env k \<or> isPreemptRequested env k \<or> \<not> ros_ok env k)"
    then have "\<forall>j<k. dig_continue env j" and "\<not> dig_continue env k"
      unfolding dig_continue_def by blast+
    then have "dig_loop env 0 [Dig_sendGoal Duration_zero] =
        Some (dig_exit env k [Dig_sendGoal Duration_zero])"
      by (rule dig_loop_first_exit)
    then show "processCommand ds K env DIG =
        Some (if dig_isDone env k then (Succeeded, [Dig_sendGoal Duration_zero])
              else (Preempted, [Dig_sendGoal Duration_zero, Dig_cancelAllGoals]))"
      unfolding start dig_exit_def by simp
  qed
  show "\<forall>st tr. processCommand ds K env DIG = Some (st, tr) \<longrightarrow>
            st \<noteq> Aborted \<and> (\<exists>tr'. tr = Dig_sendGoal Duration_zero # tr')"
  proof (intro allI impI)
    fix st tr
    assume "processCommand ds K env DIG = Some (st, tr)"
    then have "dig_loop env 0 [Dig_sendGoal Duration_zero] = Some (st, tr)"
      unfolding start .
    from dig_loop_SomeD [OF this] obtain k where
      "(st, tr) = dig_exit env k [Dig_sendGoal Duration_zero]" by blast
    then show "st \<noteq> Aborted \<and> (\<exists>tr'. tr = Dig_sendGoal Duration_zero # tr')"
      by (auto simp add: dig_exit_def split: if_splits)
  qed
qed

theorem dig_ignores_failed_duration_call_witness:
  "digging_time_call no_duration_env = None \<and>
   dig_isDone no_duration_env 0 \<and>
   processCommand default_drive sample_codes no_duration_env DIG =
     Some (Succeeded, [Dig_sendGoal Duration_zero]) \<and>
   processCommand default_drive sample_codes
     (no_duration_env\<lparr>digging_time_call := Some Duration_zero\<rparr>) DIG =
     Some (Succeeded, [Dig_sendGoal Duration_zero])"
proof -
  have h: "digging_time_call no_duration_env = None"
    by (simp add: no_duration_env_def)
  have d: "dig_isDone no_duration_env 0"
    by (simp add: no_duration_env_def)
  have r: "(\<forall>j<0. \<not> dig_isDone no_duration_env j \<and> \<not> isPreemptRequested no_duration_env j \<and>
              ros_ok no_duration_env j) \<and>
      (dig_isDone no_duration_env 0 \<or> isPreemptRequested no_duration_env 0 \<or>
       \<not> ros_ok no_duration_env 0)"
    using d by simp
  note T = dig_ignores_failed_duration_call [OF h, of default_drive sample_codes 0]
  have same: "processCommand default_drive sample_codes no_duration_env DIG =
      processCommand default_drive sample_codes
        (no_duration_env\<lparr>digging_time_call := Some Duration_zero\<rparr>) DIG"
    by (rule T [THEN conjunct2, THEN conjunct1])
  have "processCommand default_drive sample_codes no_duration_env DIG =
      Some (if dig_isDone no_duration_env 0 then (Succeeded, [Dig_sendGoal Duration_zero])
            else (Preempted, [Dig_sendGoal Duration_zero, Dig_cancelAllGoals]))"
    by (rule T [THEN conjunct2, THEN conjunct2, THEN conjunct1, THEN mp, OF r])
  then have run: "processCommand default_drive sample_codes no_duration_env DIG =
      Some (Succeeded, [Dig_sendGoal Duration_zero])"
    unfolding if_P [OF d] .
  from same [symmetric] have "processCommand default_drive sample_codes
      (no_duration_env\<lparr>digging_time_call := Some Duration_zero\<rparr>) DIG =
      Some (Succeeded, [Dig_sendGoal Duration_zero])"
    unfolding run .
  with h d run show ?thesis by (intro conjI)
qed

text \<open>
  The claim of C1 as it is written fails: with the duration call failing and the
  digging task done at the first look, the goal is sent and the cycle ends Succeeded.
\<close>

theorem dig_without_duration_succeeds:
  "digging_time_call no_duration_env = None \<and>
   processCommand default_drive sample_codes no_duration_env DIG =
     Some (Succeeded, [Dig_sendGoal Duration_zero])"
proof -
  have "\<not> dig_continue no_duration_env 0"
    by (simp add: dig_continue_def no_duration_env_def)
  then have "dig_loop no_duration_env 0 [Dig_sendGoal Duration_zero] =
      Some (dig_exit no_duration_env 0 [Dig_sendGoal Duration_zero])"
    by (intro dig_loop_first_exit) simp_all
  then show ?thesis
    by (simp add: processCommand_DIG dig_exit_def) (simp add: no_duration_env_def)
qed

text \<open>
  C4. If the digging task is not done at any look up to round \<open>k\<close> and preemption is
  requested at the check of round \<open>k\<close>, the Dig cycle sends the goal, cancels the goals
  of the digging client and ends Preempted.
\<close>

theorem dig_preempt_cancels:
  assumes "\<forall>j\<le>k. \<not> dig_isDone env j" and "isPreemptRequested env k"
  shows "processCommand ds K env DIG =
     Some (Preempted,
       [Dig_sendGoal (case digging_time_call env of None \<Rightarrow> Duration_zero | Some d \<Rightarrow> d),
        Dig_cancelAllGoals])"
proof -
  have "\<forall>j. 0 \<le> j \<and> j \<le> 0 + k \<longrightarrow> \<not> dig_isDone env j" using assms(1) by simp
  moreover have "isPreemptRequested env (0 + k)" using assms(2) by simp
  ultimately show ?thesis
    unfolding processCommand_DIG by (simp add: dig_loop_preempt)
qed

theorem dig_preempt_cancels_witness:
  "(\<forall>j. \<not> dig_isDone dig_preempted_env j) \<and> isPreemptRequested dig_preempted_env 2 \<and>
   processCommand default_drive sample_codes dig_preempted_env DIG =
     Some (Preempted, [Dig_sendGoal \<lparr>sec = 30, nsec = 0\<rparr>, Dig_cancelAllGoals])"
proof -
  have a: "\<forall>j\<le>2. \<not> dig_isDone dig_preempted_env j"
    by (simp add: dig_preempted_env_def)
  have b: "isPreemptRequested dig_preempted_env 2"
    by (simp add: dig_preempted_env_def)
  have "\<forall>j. \<not> dig_isDone dig_preempted_env j"
    by (simp add: dig_preempted_env_def)
  moreover have "digging_time_call dig_preempted_env = Some \<lparr>sec = 30, nsec = 0\<rparr>"
    by (simp add: dig_preempted_env_def)
  ultimately show ?thesis
    using b dig_preempt_cancels [OF a b, of default_drive sample_codes] by simp
qed

section \<open>Properties of the localization action server\<close>

subsection \<open>One round\<close>

lemma localize_body_status:
  "snd (localize_body w) = Some st \<Longrightarrow> st = Succeeded \<or> st = Preempted"
  by (auto simp add: localize_body_def Let_def split: option.splits if_splits)

lemma commit_calls_append [simp]:
  "commit_calls (xs @ ys) = commit_calls xs @ commit_calls ys"
  by (induction xs rule: commit_calls.induct) simp_all

lemma commit_calls_set: "Localize_bin p \<in> set tr \<longleftrightarrow> p \<in> set (commit_calls tr)"
  by (induction tr rule: commit_calls.induct) auto

lemma localize_body_Succeeded:
  "snd (localize_body w) = Some Succeeded \<Longrightarrow> commit_calls (fst (localize_body w)) \<noteq> []"
  by (auto simp add: localize_body_def Let_def split: option.splits if_splits)

lemma localize_body_commit:
  assumes "Localize_bin p \<in> set (fst (localize_body w))"
  shows "\<exists>result bin_pose.
     aruco_waitForResult w = Some result \<and> number_found result \<noteq> 0 \<and>
     transform_pose w (relative_pose result) ''base_footprint'' = Some bin_pose \<and>
     p = stamp_bin_pose (Time_now w) bin_pose"
  using assms
  by (auto simp add: localize_body_def Let_def split: option.splits if_splits)

lemma localize_body_no_marker:
  "sees_no_marker w \<Longrightarrow>
   snd (localize_body w) = None \<and> commit_calls (fst (localize_body w)) = []"
  by (auto simp add: sees_no_marker_def localize_body_def Let_def split: option.splits)

lemma localize_body_success:
  "commits_with_success w \<Longrightarrow>
   snd (localize_body w) = Some Succeeded \<and> length (commit_calls (fst (localize_body w))) = 1"
  by (auto simp add: commits_with_success_def localize_body_def Let_def split: option.splits)

lemma localize_body_transient:
  "\<not> server_isPreemptRequested w \<Longrightarrow> round_ros_ok w \<Longrightarrow> transient_failure w \<Longrightarrow>
   snd (localize_body w) = None"
  by (auto simp add: transient_failure_def localize_body_def Let_def split: option.splits)

subsection \<open>The loop in closed form\<close>

lemma localize_loop_step:
  "snd (localize_body (env i)) = None \<Longrightarrow>
   localize_loop env i tr = localize_loop env (Suc i) (tr @ fst (localize_body (env i)))"
  by (subst localize_loop.simps) (cases "localize_body (env i)", simp)

lemma localize_loop_leave:
  "snd (localize_body (env i)) = Some st \<Longrightarrow>
   localize_loop env i tr = Some (st, tr @ fst (localize_body (env i)))"
  by (subst localize_loop.simps) (cases "localize_body (env i)", simp)

lemma rounds_events_snoc:
  "rounds_events env i (Suc n) = rounds_events env i n @ fst (localize_body (env (i + n)))"
  by (induction n arbitrary: i) simp_all

lemma localize_loop_run:
  "(\<forall>j. i \<le> j \<and> j < i + n \<longrightarrow> snd (localize_body (env j)) = None) \<Longrightarrow>
   localize_loop env i tr = localize_loop env (i + n) (tr @ rounds_events env i n)"
proof (induction n arbitrary: i tr)
  case 0
  show ?case by simp
next
  case (Suc n)
  have first: "snd (localize_body (env i)) = None" using Suc.prems by simp
  have rest: "\<forall>j. Suc i \<le> j \<and> j < Suc i + n \<longrightarrow> snd (localize_body (env j)) = None"
    using Suc.prems by simp
  have "localize_loop env i tr = localize_loop env (Suc i) (tr @ fst (localize_body (env i)))"
    using first by (rule localize_loop_step)
  also have "\<dots> = localize_loop env (Suc i + n)
      ((tr @ fst (localize_body (env i))) @ rounds_events env (Suc i) n)"
    using rest by (rule Suc.IH)
  finally show ?case by simp
qed

lemma localize_first_exit:
  assumes "\<forall>j<k. snd (localize_body (env j)) = None"
    and "snd (localize_body (env k)) = Some st"
  shows "localize env = Some (st, rounds_events env 0 (Suc k))"
proof -
  have "localize_loop env 0 [] = localize_loop env (0 + k) ([] @ rounds_events env 0 k)"
    using assms(1) by (intro localize_loop_run) simp
  also have "\<dots> = Some (st, rounds_events env 0 k @ fst (localize_body (env k)))"
    using assms(2) by (simp add: localize_loop_leave)
  finally show ?thesis
    unfolding localize_def rounds_events_snoc by simp
qed

lemma localize_loop_SomeD_aux:
  assumes "localize_loop env i tr = Some r"
  shows "localize_post env i tr r"
proof (rule localize_loop.raw_induct [where P = localize_post, OF _ assms])
  fix loop :: "(nat \<Rightarrow> ('a, 'b) localize_round) \<Rightarrow> nat \<Rightarrow> ('a, 'b) localize_event list
     \<Rightarrow> (status \<times> ('a, 'b) localize_event list) option"
  fix env i tr r
  assume IH: "\<And>env i tr r. loop env i tr = Some r \<Longrightarrow> localize_post env i tr r"
  assume body: "(case localize_body (env i) of
        (evs, None) \<Rightarrow> loop env (Suc i) (tr @ evs)
      | (evs, Some st) \<Rightarrow> Some (st, tr @ evs)) = Some r"
  show "localize_post env i tr r"
  proof (cases "snd (localize_body (env i))")
    case (Some st)
    with body have "r = (st, tr @ fst (localize_body (env i)))"
      by (cases "localize_body (env i)") auto
    with Some show ?thesis
      unfolding localize_post_def by (intro exI [of _ 0] exI [of _ st]) auto
  next
    case None
    with body have "loop env (Suc i) (tr @ fst (localize_body (env i))) = Some r"
      by (cases "localize_body (env i)") auto
    from IH [OF this, unfolded localize_post_def] obtain n st where
      n: "r = (st, (tr @ fst (localize_body (env i))) @ rounds_events env (Suc i) (Suc n))"
         "\<forall>j. Suc i \<le> j \<and> j < Suc i + n \<longrightarrow> snd (localize_body (env j)) = None"
         "snd (localize_body (env (Suc i + n))) = Some st" by (elim exE conjE)
    have "\<forall>j. i \<le> j \<and> j < i + Suc n \<longrightarrow> snd (localize_body (env j)) = None"
    proof (intro allI impI)
      fix j assume j: "i \<le> j \<and> j < i + Suc n"
      show "snd (localize_body (env j)) = None"
      proof (cases "j = i")
        case True
        with None show ?thesis by simp
      next
        case False
        with j have "Suc i \<le> j \<and> j < Suc i + n" by arith
        with n(2) show ?thesis by blast
      qed
    qed
    with n(1,3) show ?thesis
      unfolding localize_post_def by (intro exI [of _ "Suc n"] exI [of _ st]) simp
  qed
qed

lemma localize_SomeD:
  assumes "localize env = Some (st, tr)"
  shows "\<exists>k. tr = rounds_events env 0 (Suc k) \<and>
        (\<forall>j<k. snd (localize_body (env j)) = None) \<and>
        snd (localize_body (env k)) = Some st"
proof -
  have "localize_post env 0 [] (st, tr)"
    using assms unfolding localize_def by (rule localize_loop_SomeD_aux)
  then show ?thesis unfolding localize_post_def by auto
qed

lemma rounds_events_member:
  "e \<in> set (rounds_events env i n) \<Longrightarrow>
   \<exists>j. i \<le> j \<and> j < i + n \<and> e \<in> set (fst (localize_body (env j)))"
proof (induction n arbitrary: i)
  case 0
  then show ?case by simp
next
  case (Suc n)
  show ?case
  proof (cases "e \<in> set (fst (localize_body (env i)))")
    case True
    then show ?thesis by (intro exI [of _ i]) simp
  next
    case False
    with Suc.prems have "e \<in> set (rounds_events env (Suc i) n)" by simp
    from Suc.IH [OF this] obtain j where
      "Suc i \<le> j \<and> j < Suc i + n \<and> e \<in> set (fst (localize_body (env j)))" by blast
    then show ?thesis by (intro exI [of _ j]) simp
  qed
qed

lemma commit_calls_rounds_events_Nil:
  "(\<forall>j. i \<le> j \<and> j < i + n \<longrightarrow> commit_calls (fst (localize_body (env j))) = []) \<Longrightarrow>
   commit_calls (rounds_events env i n) = []"
proof (induction n arbitrary: i)
  case 0
  show ?case by simp
next
  case (Suc n)
  have "commit_calls (fst (localize_body (env i))) = []" using Suc.prems by simp
  moreover have "commit_calls (rounds_events env (Suc i) n) = []"
    using Suc.prems by (intro Suc.IH) simp
  ultimately show ?case by simp
qed

subsection \<open>Claims about the localization loop\<close>

lemma localize_loop_preempt:
  "(\<forall>j. i \<le> j \<and> j < i + n \<longrightarrow> commit_calls (fst (localize_body (env j))) = []) \<Longrightarrow>
   server_isPreemptRequested (env (i + n)) \<Longrightarrow>
   \<exists>tr'. localize_loop env i tr = Some (Preempted, tr') \<and> commit_calls tr' = commit_calls tr"
proof (induction n arbitrary: i tr)
  case 0
  then have "localize_body (env i) = ([], Some Preempted)"
    by (simp add: localize_body_def)
  then have "localize_loop env i tr = Some (Preempted, tr)"
    by (subst localize_loop.simps) simp
  then show ?case by simp
next
  case (Suc n)
  have quiet: "commit_calls (fst (localize_body (env i))) = []" using Suc.prems(1) by simp
  show ?case
  proof (cases "snd (localize_body (env i))")
    case None
    then have "localize_loop env i tr =
        localize_loop env (Suc i) (tr @ fst (localize_body (env i)))"
      by (rule localize_loop_step)
    moreover have "\<forall>j. Suc i \<le> j \<and> j < Suc i + n \<longrightarrow>
        commit_calls (fst (localize_body (env j))) = []"
      using Suc.prems(1) by simp
    moreover have "server_isPreemptRequested (env (Suc i + n))"
      using Suc.prems(2) by simp
    ultimately show ?thesis
      using Suc.IH [of "Suc i" "tr @ fst (localize_body (env i))"] quiet by simp
  next
    case (Some st)
    with quiet localize_body_Succeeded [of "env i"] localize_body_status [of "env i" st]
    have "st = Preempted" by auto
    with Some have "localize_loop env i tr = Some (Preempted, tr @ fst (localize_body (env i)))"
      by (simp add: localize_loop_leave)
    with quiet show ?thesis by simp
  qed
qed

text \<open>
  C3. If the first two rounds each see no marker and in the third markers are found,
  the transform succeeds and the commit succeeds, the loop ends Succeeded after exactly
  one call of \<^verbatim>\<open>localize_bin\<close>. And if preemption is requested at the top of round
  \<open>k\<close> and no round before \<open>k\<close> has issued a commit call, the loop ends Preempted and
  no commit call was ever issued.
\<close>

theorem localize_three_rounds_and_preemption:
  "(sees_no_marker (env 0) \<and> sees_no_marker (env 1) \<and> commits_with_success (env 2) \<longrightarrow>
      (\<exists>tr. localize env = Some (Succeeded, tr) \<and> length (commit_calls tr) = 1)) \<and>
   ((\<forall>j<k. commit_calls (fst (localize_body (env j))) = []) \<and>
    server_isPreemptRequested (env k) \<longrightarrow>
      (\<exists>tr. localize env = Some (Preempted, tr) \<and> commit_calls tr = []))"
proof (intro conjI impI)
  assume h: "sees_no_marker (env 0) \<and> sees_no_marker (env 1) \<and> commits_with_success (env 2)"
  have r0: "snd (localize_body (env 0)) = None" "commit_calls (fst (localize_body (env 0))) = []"
    using h localize_body_no_marker [of "env 0"] by simp_all
  have r1: "snd (localize_body (env 1)) = None" "commit_calls (fst (localize_body (env 1))) = []"
    using h localize_body_no_marker [of "env 1"] by simp_all
  have r2: "snd (localize_body (env 2)) = Some Succeeded"
    "length (commit_calls (fst (localize_body (env 2)))) = 1"
    using h localize_body_success [of "env 2"] by simp_all
  have "\<forall>j<2. snd (localize_body (env j)) = None"
    using r0(1) r1(1) by (simp add: less_Suc_eq numeral_2_eq_2)
  then have "localize env = Some (Succeeded, rounds_events env 0 (Suc 2))"
    using r2(1) by (rule localize_first_exit)
  moreover have "length (commit_calls (rounds_events env 0 (Suc 2))) = 1"
    using r0(2) r1(2) r2(2) by (simp add: numeral_2_eq_2)
  ultimately show "\<exists>tr. localize env = Some (Succeeded, tr) \<and> length (commit_calls tr) = 1"
    by blast
next
  assume h: "(\<forall>j<k. commit_calls (fst (localize_body (env j))) = []) \<and>
    server_isPreemptRequested (env k)"
  then have "\<forall>j. 0 \<le> j \<and> j < 0 + k \<longrightarrow> commit_calls (fst (localize_body (env j))) = []"
    and "server_isPreemptRequested (env (0 + k))" by simp_all
  from localize_loop_preempt [OF this, of "[]"]
  show "\<exists>tr. localize env = Some (Preempted, tr) \<and> commit_calls tr = []"
    unfolding localize_def by simp
qed

theorem localize_three_rounds_and_preemption_witness:
  "(\<exists>tr. localize markers_in_third_round = Some (Succeeded, tr) \<and>
        length (commit_calls tr) = 1) \<and>
   (\<exists>tr. localize preempt_in_second_round = Some (Preempted, tr) \<and> commit_calls tr = [])"
proof -
  have a: "sees_no_marker (markers_in_third_round 0) \<and>
      sees_no_marker (markers_in_third_round 1) \<and>
      commits_with_success (markers_in_third_round 2)"
    by (simp add: markers_in_third_round_def sees_no_marker_def commits_with_success_def
        no_marker_round_def marker_round_def)
  have b: "(\<forall>j<1. commit_calls (fst (localize_body (preempt_in_second_round j))) = []) \<and>
      server_isPreemptRequested (preempt_in_second_round 1)"
    by (simp add: preempt_in_second_round_def localize_body_def no_marker_round_def
        preempt_round_def marker_round_def)
  from a b
    localize_three_rounds_and_preemption [of markers_in_third_round 0]
    localize_three_rounds_and_preemption [of preempt_in_second_round 1]
  show ?thesis by blast
qed

text \<open>
  C6. If \<^verbatim>\<open>localize\<close> returns, the goal was set Succeeded or Preempted, never
  Aborted. A round that is not preempted and in which the image call fails, the marker
  detection is not reached, no marker is found, the transform fails or the commit fails
  does not end the loop: the loop goes on with the next round.
\<close>

theorem localize_retries_transient_failures:
  "(\<forall>st tr. localize env = Some (st, tr) \<longrightarrow> st = Succeeded \<or> st = Preempted) \<and>
   (\<not> server_isPreemptRequested (env i) \<and> round_ros_ok (env i) \<and> transient_failure (env i)
      \<longrightarrow> localize_loop env i tr0 =
            localize_loop env (Suc i) (tr0 @ fst (localize_body (env i))))"
proof (rule conjI)
  show "\<forall>st tr. localize env = Some (st, tr) \<longrightarrow> st = Succeeded \<or> st = Preempted"
  proof (intro allI impI)
    fix st tr
    assume "localize env = Some (st, tr)"
    from localize_SomeD [OF this] obtain k where
      "snd (localize_body (env k)) = Some st" by blast
    then show "st = Succeeded \<or> st = Preempted" by (rule localize_body_status)
  qed
next
  show "\<not> server_isPreemptRequested (env i) \<and> round_ros_ok (env i) \<and> transient_failure (env i)
      \<longrightarrow> localize_loop env i tr0 =
            localize_loop env (Suc i) (tr0 @ fst (localize_body (env i)))"
    by (intro impI localize_loop_step localize_body_transient) simp_all
qed

theorem localize_retries_transient_failures_witness:
  "localize markers_in_third_round = Some (Succeeded,
     [Aruco_sendGoal 0 0, Aruco_sendGoal 0 0, Aruco_sendGoal 1 0,
      Localize_bin (stamp_bin_pose \<lparr>sec = 300, nsec = 0\<rparr> base_pose)]) \<and>
   transient_failure (markers_in_third_round 0) \<and>
   localize_loop markers_in_third_round 0 [] =
     localize_loop markers_in_third_round (Suc 0) [Aruco_sendGoal 0 0]"
proof -
  have b0: "localize_body (markers_in_third_round 0) = ([Aruco_sendGoal 0 0], None)"
    by (simp add: markers_in_third_round_def localize_body_def no_marker_round_def)
  have b1: "localize_body (markers_in_third_round (Suc 0)) = ([Aruco_sendGoal 0 0], None)"
    by (simp add: markers_in_third_round_def localize_body_def no_marker_round_def)
  have b2: "localize_body (markers_in_third_round (Suc (Suc 0))) =
      ([Aruco_sendGoal 1 0, Localize_bin (stamp_bin_pose \<lparr>sec = 300, nsec = 0\<rparr> base_pose)],
       Some Succeeded)"
    by (simp add: markers_in_third_round_def localize_body_def marker_round_def)
  have h: "\<not> server_isPreemptRequested (markers_in_third_round 0) \<and>
      round_ros_ok (markers_in_third_round 0) \<and> transient_failure (markers_in_third_round 0)"
    by (simp add: markers_in_third_round_def transient_failure_def no_marker_round_def)
  have "\<forall>j<Suc (Suc 0). snd (localize_body (markers_in_third_round j)) = None"
    using b0 b1 by (simp add: less_Suc_eq)
  moreover have "snd (localize_body (markers_in_third_round (Suc (Suc 0)))) = Some Succeeded"
    using b2 by simp
  ultimately have "localize markers_in_third_round =
      Some (Succeeded, rounds_events markers_in_third_round 0 (Suc (Suc (Suc 0))))"
    by (rule localize_first_exit)
  then have run: "localize markers_in_third_round = Some (Succeeded,
     [Aruco_sendGoal 0 0, Aruco_sendGoal 0 0, Aruco_sendGoal 1 0,
      Localize_bin (stamp_bin_pose \<lparr>sec = 300, nsec = 0\<rparr> base_pose)])"
    using b0 b1 b2 by simp
  from h b0 localize_retries_transient_failures [of markers_in_third_round 0 "[]"]
  have "localize_loop markers_in_third_round 0 [] =
     localize_loop markers_in_third_round (Suc 0) [Aruco_sendGoal 0 0]" by simp
  with run h show ?thesis by blast
qed

subsection \<open>The commit call\<close>

text \<open>
  C7. A round issues a \<^verbatim>\<open>localize_bin\<close> call only if the detection result of
  that round reports a marker count other than zero and the transform of its relative
  pose succeeded; a round in which the count is zero or the transform fails issues no
  such call. Hence every call in the trace of a run that returned comes from a round
  with both.
\<close>

theorem commit_needs_markers_and_transform:
  "(Localize_bin p \<in> set (fst (localize_body w)) \<longrightarrow>
      (\<exists>result bin_pose.
         aruco_waitForResult w = Some result \<and> number_found result \<noteq> 0 \<and>
         transform_pose w (relative_pose result) ''base_footprint'' = Some bin_pose)) \<and>
   (aruco_waitForResult w = Some result' \<and>
    (number_found result' = 0 \<or>
     transform_pose w (relative_pose result') ''base_footprint'' = None) \<longrightarrow>
      commit_calls (fst (localize_body w)) = []) \<and>
   (localize env = Some (st, tr) \<and> Localize_bin p \<in> set tr \<longrightarrow>
      (\<exists>i result bin_pose.
         aruco_waitForResult (env i) = Some result \<and> number_found result \<noteq> 0 \<and>
         transform_pose (env i) (relative_pose result) ''base_footprint'' = Some bin_pose))"
proof (intro conjI impI)
  assume "Localize_bin p \<in> set (fst (localize_body w))"
  from localize_body_commit [OF this]
  show "\<exists>result bin_pose.
      aruco_waitForResult w = Some result \<and> number_found result \<noteq> 0 \<and>
      transform_pose w (relative_pose result) ''base_footprint'' = Some bin_pose" by blast
next
  assume "aruco_waitForResult w = Some result' \<and>
    (number_found result' = 0 \<or>
     transform_pose w (relative_pose result') ''base_footprint'' = None)"
  then show "commit_calls (fst (localize_body w)) = []"
    by (auto simp add: localize_body_def Let_def split: option.splits)
next
  assume h: "localize env = Some (st, tr) \<and> Localize_bin p \<in> set tr"
  from localize_SomeD [of env st tr] h obtain k where
    "tr = rounds_events env 0 (Suc k)" by blast
  with h have "Localize_bin p \<in> set (rounds_events env 0 (Suc k))" by simp
  from rounds_events_member [OF this] obtain j where
    "Localize_bin p \<in> set (fst (localize_body (env j)))" by blast
  from localize_body_commit [OF this]
  show "\<exists>i result bin_pose.
      aruco_waitForResult (env i) = Some result \<and> number_found result \<noteq> 0 \<and>
      transform_pose (env i) (relative_pose result) ''base_footprint'' = Some bin_pose"
    by blast
qed

theorem commit_needs_markers_and_transform_witness:
  "Localize_bin (stamp_bin_pose \<lparr>sec = 300, nsec = 0\<rparr> base_pose)
     \<in> set (fst (localize_body marker_round)) \<and>
   (\<exists>result bin_pose.
      aruco_waitForResult marker_round = Some result \<and> number_found result \<noteq> 0 \<and>
      transform_pose marker_round (relative_pose result) ''base_footprint'' = Some bin_pose) \<and>
   aruco_waitForResult no_marker_round = Some \<lparr>number_found = 0, relative_pose = camera_pose\<rparr> \<and>
   commit_calls (fst (localize_body no_marker_round)) = []"
proof -
  have a: "Localize_bin (stamp_bin_pose \<lparr>sec = 300, nsec = 0\<rparr> base_pose)
      \<in> set (fst (localize_body marker_round))"
    by (simp add: localize_body_def marker_round_def)
  have b: "aruco_waitForResult no_marker_round =
      Some \<lparr>number_found = 0, relative_pose = camera_pose\<rparr>"
    by (simp add: no_marker_round_def)
  have c: "number_found \<lparr>number_found = 0, relative_pose = camera_pose\<rparr> = 0 \<or>
      transform_pose no_marker_round
        (relative_pose \<lparr>number_found = 0, relative_pose = camera_pose\<rparr>) ''base_footprint''
        = None"
    by simp
  have "\<exists>result bin_pose.
      aruco_waitForResult marker_round = Some result \<and> number_found result \<noteq> 0 \<and>
      transform_pose marker_round (relative_pose result) ''base_footprint'' = Some bin_pose"
    using a commit_needs_markers_and_transform
      [where p = "stamp_bin_pose \<lparr>sec = 300, nsec = 0\<rparr> base_pose" and w = marker_round]
    by blast
  moreover have "commit_calls (fst (localize_body no_marker_round)) = []"
    using b c commit_needs_markers_and_transform
      [where w = no_marker_round
         and result' = "\<lparr>number_found = 0, relative_pose = camera_pose\<rparr>"]
    by blast
  ultimately show ?thesis using a b by blast
qed

text \<open>
  C8. The pose handed to \<^verbatim>\<open>localize_bin\<close> is the pose the transform returned
  with the \<open>y\<close> and \<open>z\<close> coordinates of its position negated, the frame of its header
  set to \<open>odom\<close> and the stamp set to the current time; the \<open>x\<close> coordinate, the
  orientation and the sequence number of the header are those the transform returned.
\<close>

theorem commit_pose_correction:
  assumes "Localize_bin p \<in> set (fst (localize_body w))"
  shows "\<exists>result bin_pose.
     aruco_waitForResult w = Some result \<and>
     transform_pose w (relative_pose result) ''base_footprint'' = Some bin_pose \<and>
     pt_x (position (pose p)) = pt_x (position (pose bin_pose)) \<and>
     pt_y (position (pose p)) = - pt_y (position (pose bin_pose)) \<and>
     pt_z (position (pose p)) = - pt_z (position (pose bin_pose)) \<and>
     orientation (pose p) = orientation (pose bin_pose) \<and>
     frame_id (header p) = ''odom'' \<and>
     stamp (header p) = Time_now w \<and>
     header_seq (header p) = header_seq (header bin_pose)"
proof -
  from localize_body_commit [OF assms] obtain result bin_pose where
    r: "aruco_waitForResult w = Some result"
       "transform_pose w (relative_pose result) ''base_footprint'' = Some bin_pose"
       "p = stamp_bin_pose (Time_now w) bin_pose" by blast
  from r(3) have
    "pt_x (position (pose p)) = pt_x (position (pose bin_pose)) \<and>
     pt_y (position (pose p)) = - pt_y (position (pose bin_pose)) \<and>
     pt_z (position (pose p)) = - pt_z (position (pose bin_pose)) \<and>
     orientation (pose p) = orientation (pose bin_pose) \<and>
     frame_id (header p) = ''odom'' \<and>
     stamp (header p) = Time_now w \<and>
     header_seq (header p) = header_seq (header bin_pose)"
    by (simp add: stamp_bin_pose_def Let_def)
  with r(1,2) show ?thesis by blast
qed

theorem commit_pose_correction_witness:
  "fst (localize_body marker_round) =
     [Aruco_sendGoal 1 0,
      Localize_bin
        \<lparr>header = \<lparr>header_seq = 7, stamp = \<lparr>sec = 300, nsec = 0\<rparr>, frame_id = ''odom''\<rparr>,
         pose = \<lparr>position = \<lparr>pt_x = 4, pt_y = - 5, pt_z = - 6\<rparr>,
                 orientation = \<lparr>q_x = 0, q_y = 0, q_z = 1, q_w = 0\<rparr>\<rparr>\<rparr>] \<and>
   (\<exists>result bin_pose.
     aruco_waitForResult marker_round = Some result \<and>
     transform_pose marker_round (relative_pose result) ''base_footprint'' = Some bin_pose \<and>
     pt_y (position (pose (stamp_bin_pose \<lparr>sec = 300, nsec = 0\<rparr> base_pose)))
       = - pt_y (position (pose bin_pose)))"
proof -
  have a: "Localize_bin (stamp_bin_pose \<lparr>sec = 300, nsec = 0\<rparr> base_pose)
      \<in> set (fst (localize_body marker_round))"
    by (simp add: localize_body_def marker_round_def)
  have "fst (localize_body marker_round) =
     [Aruco_sendGoal 1 0,
      Localize_bin
        \<lparr>header = \<lparr>header_seq = 7, stamp = \<lparr>sec = 300, nsec = 0\<rparr>, frame_id = ''odom''\<rparr>,
         pose = \<lparr>position = \<lparr>pt_x = 4, pt_y = - 5, pt_z = - 6\<rparr>,
                 orientation = \<lparr>q_x = 0, q_y = 0, q_z = 1, q_w = 0\<rparr>\<rparr>\<rparr>]"
    by (simp add: localize_body_def marker_round_def stamp_bin_pose_def base_pose_def)
  with commit_pose_correction [OF a] show ?thesis by blast
qed

end
